theory Spec2Isabelle
  imports
    Main
    "HOL-Library.Char_ord"
    "HOL-Library.List_Lexorder"
    "HOL-Library.Product_Lexorder"
begin

section \<open>The CSLC validation-table notebook\<close>

text \<open>
  A shallow embedding of the notebook
  \<^verbatim>\<open>validation_data/CSLC_Create_Validation_Table_with_az_fm_rate.ipynb\<close>:
  the paginated key generator \<^verbatim>\<open>get_matching_s3_keys\<close>, the loop that builds up
  the validation table, and the final duplicate removal and sort.

  Python strings are \<^typ>\<open>string\<close>, compared as Python compares them (by code point,
  lexicographically, a proper prefix first). The remote services are parameters:
  the listing call \<^verbatim>\<open>s3.list_objects_v2\<close>, the remote read of the
  \<^verbatim>\<open>identification/bounding_polygon\<close> dataset, and \<^verbatim>\<open>shapely.wkt.loads\<close>.
  The table is held in memory as the list of its rows, in index order.

  The table file holds text. \<^verbatim>\<open>read_csv\<close> is modelled on the \<^verbatim>\<open>date\<close> column, the one
  column whose cells it reads as numbers: a column of numerals without sign is read as
  integers (taken to fit \<^verbatim>\<open>int64\<close>), any other column as strings, while the loop puts
  strings there. Cells that \<^verbatim>\<open>read_csv\<close> reads in another way (numerals with a sign or
  with blanks around them, floats, booleans, missing values) are outside the model;
  burst ids, network names and URLs are text that it keeps as strings, and the text of
  a geometry is taken to reload as the same geometry.
\<close>

subsection \<open>Static variables\<close>

definition bucket :: string where
  "bucket = ''opera-provisional-products''"

definition prefix :: string where
  "prefix = ''CSLC/pst_adt_common/az_fm_rate'' @ ''/'' @ ''no_az_fm_rate''"

definition s3_path :: string where
  "s3_path = ''s3://'' @ bucket"

definition version_num :: string where
  "version_num = ''1.0''"

definition suffix :: string where
  "suffix = ''.h5''"

subsection \<open>Python string helpers\<close>

text \<open>\<^verbatim>\<open>s.endswith(suf)\<close>.\<close>

definition endswith :: "string \<Rightarrow> string \<Rightarrow> bool" where
  "endswith s suf = (length suf \<le> length s \<and> drop (length s - length suf) s = suf)"

text \<open>\<^verbatim>\<open>s.split(sep)\<close> for a one-character separator: never the empty list.\<close>

fun split :: "char \<Rightarrow> string \<Rightarrow> string list" where
  "split sep [] = [[]]"
| "split sep (c # cs) =
     (if c = sep then [] # split sep cs
      else (case split sep cs of
              [] \<Rightarrow> [[c]]
            | w # ws \<Rightarrow> (c # w) # ws))"

text \<open>\<^verbatim>\<open>xs[-2]\<close>: the second-to-last element, IndexError (here None) on a shorter list.\<close>

definition second_to_last :: "'a list \<Rightarrow> 'a option" where
  "second_to_last xs = (if length xs < 2 then None else Some (xs ! (length xs - 2)))"

subsection \<open>The values of the date column\<close>

text \<open>
  A cell of the \<^verbatim>\<open>date\<close> column in memory: an integer, where \<^verbatim>\<open>read_csv\<close> read the
  column as \<^verbatim>\<open>int64\<close>, or a string. An integer and a string are never equal.
\<close>

datatype pyval = PyInt int | PyStr string

text \<open>
  The order \<^verbatim>\<open>sort_values\<close> puts the values of a column in: integers by value, strings
  as Python compares them, and in a column that holds both the integers before the
  strings.
\<close>

instantiation pyval :: linorder
begin

fun less_eq_pyval :: "pyval \<Rightarrow> pyval \<Rightarrow> bool" where
  "less_eq_pyval (PyInt i) (PyInt j) = (i \<le> j)"
| "less_eq_pyval (PyInt i) (PyStr t) = True"
| "less_eq_pyval (PyStr s) (PyInt j) = False"
| "less_eq_pyval (PyStr s) (PyStr t) = (s \<le> t)"

definition less_pyval :: "pyval \<Rightarrow> pyval \<Rightarrow> bool" where
  "less_pyval x y = (x \<le> y \<and> \<not> y \<le> (x :: pyval))"

instance
proof
  fix x y z :: pyval
  show "(x < y) = (x \<le> y \<and> \<not> y \<le> x)" by (simp add: less_pyval_def)
  show "x \<le> x" by (cases x) simp_all
  show "x \<le> y \<Longrightarrow> y \<le> z \<Longrightarrow> x \<le> z"
    by (cases x; cases y; cases z) simp_all
  show "x \<le> y \<Longrightarrow> y \<le> x \<Longrightarrow> x = y"
    by (cases x; cases y) simp_all
  show "x \<le> y \<or> y \<le> x"
    by (cases x; cases y) auto
qed

end

text \<open>A numeral without sign, and the integer \<^verbatim>\<open>read_csv\<close> reads it as.\<close>

definition is_numeral :: "string \<Rightarrow> bool" where
  "is_numeral s = (s \<noteq> [] \<and> list_all (\<lambda>c. c \<in> set ''0123456789'') s)"

definition int_of_numeral :: "string \<Rightarrow> int" where
  "int_of_numeral s = foldl (\<lambda>n c. 10 * n + (int (of_char c) - 48)) 0 s"

text \<open>
  \<^verbatim>\<open>str(n)\<close> for an integer that is not negative, and the text \<^verbatim>\<open>to_csv\<close> writes
  for a cell.
\<close>

function str_int :: "int \<Rightarrow> string" where
  "str_int n =
     (if n < 10 then [char_of (48 + n)]
      else str_int (n div 10) @ [char_of (48 + n mod 10)])"
  by pat_completeness auto
termination
  by (relation "measure nat") auto

fun cell_text :: "pyval \<Rightarrow> string" where
  "cell_text (PyStr s) = s"
| "cell_text (PyInt i) = (if i < 0 then ''-'' @ str_int (- i) else str_int i)"

subsection \<open>The listing service and the key generator\<close>

text \<open>
  One entry of a response's \<^verbatim>\<open>Contents\<close>; \<open>LastModified\<close> is the value the sort key
  \<^verbatim>\<open>int(obj['LastModified'].strftime('%s'))\<close> reads off it.
\<close>

record s3_object =
  Key :: string
  LastModified :: int

text \<open>A response of \<^verbatim>\<open>list_objects_v2\<close>: both fields may be missing (KeyError).\<close>

record list_resp =
  Contents :: "s3_object list option"
  NextContinuationToken :: "string option"

text \<open>
  The keyword arguments of the request. \<^verbatim>\<open>prefix\<close> is a string at every call, so
  \<^verbatim>\<open>Prefix\<close> is always set.
\<close>

record list_kwargs =
  Bucket :: string
  Prefix :: string
  ContinuationToken :: "string option"

text \<open>
  The keys one response yields: its contents sorted by last-modified time (Python's
  \<^verbatim>\<open>sorted\<close> is stable, as \<open>sort_key\<close> is), then the keys that end with the suffix.
\<close>

definition page_keys :: "string \<Rightarrow> s3_object list \<Rightarrow> string list" where
  "page_keys suf valid_results =
     filter (\<lambda>i. endswith i suf) (map Key (sort_key LastModified valid_results))"

text \<open>
  The \<^verbatim>\<open>while True\<close> loop of \<^verbatim>\<open>get_matching_s3_keys\<close>. The result is the list of the
  keys the generator yields until it returns; \<open>None\<close> when the loop never ends (the
  service hands out continuation tokens for ever).
\<close>

partial_function (option) list_loop ::
  "(list_kwargs \<Rightarrow> list_resp) \<Rightarrow> string \<Rightarrow> list_kwargs \<Rightarrow> string list option" where
  "list_loop list_objects_v2 suf kwargs =
     (let resp = list_objects_v2 kwargs in
      case Contents resp of
        None \<Rightarrow> Some []
      | Some valid_results \<Rightarrow>
          (let keys = page_keys suf valid_results in
           case NextContinuationToken resp of
             None \<Rightarrow> Some keys
           | Some tok \<Rightarrow>
               Option.bind
                 (list_loop list_objects_v2 suf (kwargs\<lparr>ContinuationToken := Some tok\<rparr>))
                 (\<lambda>rest. Some (keys @ rest))))"

declare list_loop.simps [code]

definition get_matching_s3_keys ::
  "(list_kwargs \<Rightarrow> list_resp) \<Rightarrow> string \<Rightarrow> string \<Rightarrow> string \<Rightarrow> string \<Rightarrow> string
     \<Rightarrow> string list option" where
  "get_matching_s3_keys list_objects_v2 bucket' prefix' suffix' burst_id' version_num' =
     list_loop list_objects_v2 suffix'
       \<lparr>Bucket = bucket', Prefix = prefix' @ ''/'' @ burst_id' @ ''/20'',
        ContinuationToken = None\<rparr>"

text \<open>
  The listing under \<open>kwargs\<close> ends within \<open>n\<close> responses: one of the first \<open>n\<close>
  responses of the chain of continuation tokens has no contents or no token.
\<close>

fun finite_listing :: "nat \<Rightarrow> (list_kwargs \<Rightarrow> list_resp) \<Rightarrow> list_kwargs \<Rightarrow> bool" where
  "finite_listing 0 list_objects_v2 kwargs = False"
| "finite_listing (Suc n) list_objects_v2 kwargs =
     (case Contents (list_objects_v2 kwargs) of
        None \<Rightarrow> True
      | Some valid_results \<Rightarrow>
          (case NextContinuationToken (list_objects_v2 kwargs) of
             None \<Rightarrow> True
           | Some tok \<Rightarrow>
               finite_listing n list_objects_v2 (kwargs\<lparr>ContinuationToken := Some tok\<rparr>)))"

text \<open>
  The contents of the successive responses, following the continuation tokens from
  \<open>kwargs\<close> up to the first response without contents or without a token, \<open>n\<close> at most.
\<close>

fun pages :: "nat \<Rightarrow> (list_kwargs \<Rightarrow> list_resp) \<Rightarrow> list_kwargs \<Rightarrow> s3_object list list" where
  "pages 0 list_objects_v2 kwargs = []"
| "pages (Suc n) list_objects_v2 kwargs =
     (case Contents (list_objects_v2 kwargs) of
        None \<Rightarrow> []
      | Some valid_results \<Rightarrow>
          valid_results #
          (case NextContinuationToken (list_objects_v2 kwargs) of
             None \<Rightarrow> []
           | Some tok \<Rightarrow> pages n list_objects_v2 (kwargs\<lparr>ContinuationToken := Some tok\<rparr>)))"

subsection \<open>The validation table\<close>

text \<open>
  One row of the table, with the cells of the \<^verbatim>\<open>date\<close> column of type \<open>'d\<close>:
  \<^typ>\<open>pyval\<close> in memory, text in the file. \<^verbatim>\<open>cslc_static_url\<close> may be absent.
\<close>

record ('d, 'g) table_row =
  burst_id :: string
  date :: 'd
  cslc_url :: string
  cslc_static_url :: "string option"
  geometry :: 'g

type_synonym 'g row = "(pyval, 'g) table_row"

type_synonym 'g csv_row = "(string, 'g) table_row"

text \<open>
  The remote services the notebook talks to. The last two are the steps of the read of
  a geometry: opening the object and reading \<^verbatim>\<open>identification/bounding_polygon\<close> as a
  string, and \<^verbatim>\<open>wkt.loads\<close>; each returns \<open>None\<close> where the Python raises.
\<close>

record 'g services =
  list_objects_v2 :: "list_kwargs \<Rightarrow> list_resp"
  read_bounding_polygon :: "string \<Rightarrow> string option"
  wkt_loads :: "string \<Rightarrow> 'g option"

datatype error =
    KeyError
  | BurstRecordNotFound
  | IndexError
  | ReadError
  | WKTError

text \<open>
  The calls made to the remote services, in order: the listing started for a prefix and
  a burst, and the remote read of the geometry of an object URL.
\<close>

datatype call =
    List_keys string string
  | Read_geometry string

text \<open>The notebook's variable \<^verbatim>\<open>validation_bursts_df\<close>, and the log of calls.\<close>

record 'g state =
  df :: "'g row list"
  calls :: "call list"

text \<open>A cell either runs to its end or raises, leaving the variables as they are then.\<close>

datatype 'g outcome =
    Completed "'g state"
  | Raised error "'g state"

text \<open>
  \<^verbatim>\<open>next(iter(geom_check.index[geom_check]), False)\<close>: the first index label whose row
  has the burst id, or the default \<^verbatim>\<open>False\<close>. The index of the table is 0, 1, 2, ...
  throughout (a fresh frame, \<^verbatim>\<open>read_csv\<close>, and \<^verbatim>\<open>concat\<close> with
  \<^verbatim>\<open>ignore_index=True\<close>), so a label is a position.
\<close>

datatype idx = Label nat | PyFalse

definition first_index :: "'g row list \<Rightarrow> string \<Rightarrow> idx" where
  "first_index t b =
     (case filter (\<lambda>i. burst_id (t ! i) = b) [0..<length t] of
        [] \<Rightarrow> PyFalse
      | i # _ \<Rightarrow> Label i)"

text \<open>
  \<^verbatim>\<open>idx_geo != False\<close>. Python's \<^verbatim>\<open>bool\<close> is a subtype of \<^verbatim>\<open>int\<close> with
  \<^verbatim>\<open>False == 0\<close>, so the test is false at the label 0 as well as at the default.
\<close>

fun ne_False :: "idx \<Rightarrow> bool" where
  "ne_False (Label i) = (i \<noteq> 0)"
| "ne_False PyFalse = False"

text \<open>
  The position \<^verbatim>\<open>validation_bursts_df.loc[idx_geo]\<close> reads; the notebook reads it
  only where the test above holds, that is at a label other than 0.
\<close>

fun label :: "idx \<Rightarrow> nat" where
  "label (Label i) = i"
| "label PyFalse = 0"

text \<open>The \<^verbatim>\<open>else\<close> branch: read the file to access the geometry.\<close>

definition read_geometry :: "'g services \<Rightarrow> string \<Rightarrow> error + 'g" where
  "read_geometry srv url =
     (case read_bounding_polygon srv url of
        None \<Rightarrow> Inl ReadError
      | Some s \<Rightarrow>
          (case wkt_loads srv s of
             None \<Rightarrow> Inl WKTError
           | Some g \<Rightarrow> Inr g))"

text \<open>\<^verbatim>\<open>pd.concat([validation_bursts_df, gpd.GeoDataFrame([file_dict])], ignore_index=True)\<close>\<close>

definition append_row :: "'g state \<Rightarrow> 'g row \<Rightarrow> 'g state" where
  "append_row st r = st\<lparr>df := df st @ [r]\<rparr>"

text \<open>The body of the inner \<^verbatim>\<open>for key in get_matching_s3_keys(...)\<close> loop.\<close>

definition loop_body :: "'g services \<Rightarrow> string \<Rightarrow> 'g state \<Rightarrow> string \<Rightarrow> 'g outcome" where
  "loop_body srv burst st key =
     (let url = s3_path @ ''/'' @ key in
      if url \<notin> set (map cslc_url (df st)) then
        (case second_to_last (split CHR ''/'' key) of
           None \<Rightarrow> Raised IndexError st
         | Some d \<Rightarrow>
             (let idx_geo = first_index (df st) burst in
              if ne_False idx_geo then
                Completed (append_row st
                  \<lparr>burst_id = burst, date = PyStr d, cslc_url = url,
                   cslc_static_url = None, geometry = geometry (df st ! label idx_geo)\<rparr>)
              else
                (let st1 = st\<lparr>calls := calls st @ [Read_geometry url]\<rparr> in
                 case read_geometry srv url of
                   Inl e \<Rightarrow> Raised e st1
                 | Inr g \<Rightarrow>
                     Completed (append_row st1
                       \<lparr>burst_id = burst, date = PyStr d, cslc_url = url,
                        cslc_static_url = None, geometry = g\<rparr>))))
      else Completed st)"

fun for_keys :: "'g services \<Rightarrow> string \<Rightarrow> 'g state \<Rightarrow> string list \<Rightarrow> 'g outcome" where
  "for_keys srv burst st [] = Completed st"
| "for_keys srv burst st (key # keys) =
     (case loop_body srv burst st key of
        Completed st' \<Rightarrow> for_keys srv burst st' keys
      | Raised e st' \<Rightarrow> Raised e st')"

text \<open>
  The outer loop over the rows \<open>(burst_id, cr_network)\<close> of \<^verbatim>\<open>df_val\<close>. The generator
  is drained before its keys are processed; \<open>None\<close> when a listing never ends.
\<close>

fun main_loop ::
  "'g services \<Rightarrow> 'g state \<Rightarrow> (string \<times> string) list \<Rightarrow> 'g outcome option" where
  "main_loop srv st [] = Some (Completed st)"
| "main_loop srv st ((burst, cr_network) # rest) =
     (let iter_prefix = prefix @ ''/'' @ cr_network;
          st1 = st\<lparr>calls := calls st @ [List_keys iter_prefix burst]\<rparr> in
      case get_matching_s3_keys (list_objects_v2 srv) bucket iter_prefix suffix burst
             version_num of
        None \<Rightarrow> None
      | Some keys \<Rightarrow>
          (case for_keys srv burst st1 keys of
             Completed st2 \<Rightarrow> main_loop srv st2 rest
           | Raised e st2 \<Rightarrow> Some (Raised e st2)))"

subsection \<open>Saving the table\<close>

text \<open>
  \<^verbatim>\<open>drop_duplicates\<close> on a subset of columns, here read through \<open>k\<close>: of the rows that
  agree on it the first is kept (\<^verbatim>\<open>keep='first'\<close>, the default).
\<close>

fun drop_duplicates :: "('a \<Rightarrow> 'k) \<Rightarrow> 'a list \<Rightarrow> 'a list" where
  "drop_duplicates k [] = []"
| "drop_duplicates k (x # xs) = x # drop_duplicates k (filter (\<lambda>y. k y \<noteq> k x) xs)"

text \<open>The columns \<^verbatim>\<open>['burst_id', 'date']\<close> of a row.\<close>

definition burst_date :: "('d, 'g) table_row \<Rightarrow> string \<times> 'd" where
  "burst_date r = (burst_id r, date r)"

text \<open>\<^verbatim>\<open>sort_values(by=['burst_id', 'date'], ascending=[True, True])\<close>\<close>

definition sort_values :: "'g row list \<Rightarrow> 'g row list" where
  "sort_values t = sort_key burst_date t"

definition save_table :: "'g row list \<Rightarrow> 'g row list" where
  "save_table t = sort_values (drop_duplicates burst_date t)"

subsection \<open>The table file\<close>

text \<open>
  The file \<^verbatim>\<open>validation_csv\<close>. A frame that was started empty and got no row has no
  \<^verbatim>\<open>geometry\<close> column, and \<^verbatim>\<open>to_csv\<close> writes the header of the other four columns
  only; every other frame is written with its rows and the five columns.
\<close>

datatype 'g csv = Header_only | Csv "'g csv_row list"

definition with_date :: "'e \<Rightarrow> ('d, 'g) table_row \<Rightarrow> ('e, 'g) table_row" where
  "with_date d r =
     \<lparr>burst_id = burst_id r, date = d, cslc_url = cslc_url r,
      cslc_static_url = cslc_static_url r, geometry = geometry r\<rparr>"

text \<open>
  \<^verbatim>\<open>pd.read_csv(validation_csv)\<close> and the frame built from it: \<^verbatim>\<open>df["geometry"]\<close>
  raises KeyError on the file without that column; the \<^verbatim>\<open>date\<close> column is read as
  integers when all its cells are numerals, as strings otherwise.
\<close>

definition read_csv :: "'g csv \<Rightarrow> error + 'g row list" where
  "read_csv f =
     (case f of
        Header_only \<Rightarrow> Inl KeyError
      | Csv rs \<Rightarrow>
          Inr (if list_all (\<lambda>r. is_numeral (date r)) rs
               then map (\<lambda>r. with_date (PyInt (int_of_numeral (date r))) r) rs
               else map (\<lambda>r. with_date (PyStr (date r)) r) rs))"

text \<open>\<^verbatim>\<open>to_csv(validation_csv, index=False)\<close> of the frame with the rows \<open>t\<close>.\<close>

definition to_csv :: "bool \<Rightarrow> 'g row list \<Rightarrow> 'g csv" where
  "to_csv loaded t =
     (if t = [] \<and> \<not> loaded then Header_only
      else Csv (map (\<lambda>r. with_date (cell_text (date r)) r) t))"

subsection \<open>The notebook, cell after cell\<close>

text \<open>
  The two files the notebook reads: the saved table \<^verbatim>\<open>validation_csv\<close> and the list of
  bursts \<^verbatim>\<open>validation_bursts\<close> with the columns \<open>(burst_id, cr_network)\<close>; \<open>None\<close>
  when the file does not exist.
\<close>

record 'g files =
  validation_csv :: "'g csv option"
  validation_bursts :: "(string \<times> string) list option"

text \<open>The first cell: load the table if its file exists, otherwise start an empty one.\<close>

definition load_table :: "'g files \<Rightarrow> error + 'g row list" where
  "load_table fs = (case validation_csv fs of None \<Rightarrow> Inr [] | Some f \<Rightarrow> read_csv f)"

text \<open>
  The cells in order: load the table or start an empty one; raise if the burst file
  is missing; build up the table; remove duplicates, sort and write the table. A cell
  that raises stops the run. The result is the files after the run and the outcome
  (with an empty table where the load raised and the variable was never bound).
\<close>

definition notebook :: "'g services \<Rightarrow> 'g files \<Rightarrow> ('g files \<times> 'g outcome) option" where
  "notebook srv fs =
     (case load_table fs of
        Inl e \<Rightarrow> Some (fs, Raised e \<lparr>df = [], calls = []\<rparr>)
      | Inr t0 \<Rightarrow>
          (let st0 = \<lparr>df = t0, calls = []\<rparr> in
           case validation_bursts fs of
             None \<Rightarrow> Some (fs, Raised BurstRecordNotFound st0)
           | Some df_val \<Rightarrow>
               (case main_loop srv st0 df_val of
                  None \<Rightarrow> None
                | Some (Raised e st) \<Rightarrow> Some (fs, Raised e st)
                | Some (Completed st) \<Rightarrow>
                    (let t = save_table (df st) in
                     Some (fs\<lparr>validation_csv := Some (to_csv (validation_csv fs \<noteq> None) t)\<rparr>,
                           Completed (st\<lparr>df := t\<rparr>))))))"

subsection \<open>Reading outcomes\<close>

text \<open>The variables as a cell leaves them, whether it completed or raised.\<close>

fun state_of :: "'g outcome \<Rightarrow> 'g state" where
  "state_of (Completed st) = st"
| "state_of (Raised e st) = st"

text \<open>The table a run of the notebook returns, if it completes.\<close>

definition final_table :: "('g files \<times> 'g outcome) option \<Rightarrow> 'g row list option" where
  "final_table r = (case r of Some (fs', Completed st) \<Rightarrow> Some (df st) | _ \<Rightarrow> None)"

text \<open>The rows of the table file a run of the notebook leaves.\<close>

definition saved_rows :: "('g files \<times> 'g outcome) option \<Rightarrow> 'g csv_row list option" where
  "saved_rows r =
     (case r of
        Some (fs', out) \<Rightarrow> (case validation_csv fs' of Some (Csv rs) \<Rightarrow> Some rs | _ \<Rightarrow> None)
      | None \<Rightarrow> None)"

text \<open>Every read of a geometry logged so far succeeded.\<close>

definition reads_ok :: "'g services \<Rightarrow> 'g state \<Rightarrow> bool" where
  "reads_ok srv st =
     (\<forall>url. Read_geometry url \<in> set (calls st) \<longrightarrow> (\<exists>g. read_geometry srv url = Inr g))"

text \<open>
  A logged read that fails is the last call, its error is the one raised, and the
  table has no row for its URL.
\<close>

definition failed_read :: "'g services \<Rightarrow> error \<Rightarrow> 'g state \<Rightarrow> bool" where
  "failed_read srv e st =
     (\<forall>url. Read_geometry url \<in> set (calls st) \<longrightarrow> (\<forall>e'. read_geometry srv url = Inl e' \<longrightarrow>
        e' = e \<and> last (calls st) = Read_geometry url \<and> url \<notin> cslc_url ` set (df st)))"

definition reads_inv :: "'g services \<Rightarrow> 'g outcome \<Rightarrow> bool" where
  "reads_inv srv out =
     (case out of Completed st \<Rightarrow> reads_ok srv st | Raised e st \<Rightarrow> failed_read srv e st)"

subsection \<open>Comparing runs\<close>

text \<open>The object URL of a key, and the row the loop body builds for it.\<close>

abbreviation url_of :: "string \<Rightarrow> string" where
  "url_of key \<equiv> s3_path @ ''/'' @ key"

abbreviation new_row :: "string \<Rightarrow> string \<Rightarrow> string \<Rightarrow> 'g \<Rightarrow> 'g row" where
  "new_row burst d key g \<equiv>
     \<lparr>burst_id = burst, date = PyStr d, cslc_url = url_of key, cslc_static_url = None,
      geometry = g\<rparr>"

text \<open>The keys listed for a row \<open>(burst_id, cr_network)\<close> of the burst file.\<close>

definition listed :: "'g services \<Rightarrow> string \<times> string \<Rightarrow> string list option" where
  "listed srv e =
     get_matching_s3_keys (list_objects_v2 srv) bucket (prefix @ ''/'' @ snd e) suffix (fst e)
       version_num"

text \<open>
  The rows the inner loop appends for a row of the burst file when it starts from the
  table \<open>t0\<close>; \<open>None\<close> when the listing never ends or the loop raises.
\<close>

definition block :: "'g services \<Rightarrow> 'g row list \<Rightarrow> string \<times> string \<Rightarrow> 'g row list option" where
  "block srv t0 e =
     (case listed srv e of
        None \<Rightarrow> None
      | Some ks \<Rightarrow>
          (case for_keys srv (fst e) \<lparr>df = t0, calls = []\<rparr> ks of
             Completed st \<Rightarrow> Some (drop (length t0) (df st))
           | Raised err st \<Rightarrow> None))"

text \<open>No key is listed for two different rows of the burst file.\<close>

definition disjoint_listings :: "'g services \<Rightarrow> (string \<times> string) list \<Rightarrow> bool" where
  "disjoint_listings srv df_val =
     (\<forall>e\<in>set df_val. \<forall>e'\<in>set df_val. \<forall>ks ks'.
        listed srv e = Some ks \<and> listed srv e' = Some ks' \<and> e \<noteq> e' \<longrightarrow> set ks \<inter> set ks' = {})"

text \<open>
  The read of the geometry gives the same result for all the keys listed for a row of
  the burst file: the geometry is constant within a burst.
\<close>

definition same_geometry :: "'g services \<Rightarrow> string list \<Rightarrow> bool" where
  "same_geometry srv ks =
     (\<forall>k\<in>set ks. \<forall>k'\<in>set ks.
        read_geometry srv (s3_path @ ''/'' @ k) = read_geometry srv (s3_path @ ''/'' @ k'))"

definition constant_geometry :: "'g services \<Rightarrow> (string \<times> string) list \<Rightarrow> bool" where
  "constant_geometry srv df_val =
     (\<forall>e\<in>set df_val. \<forall>ks. listed srv e = Some ks \<longrightarrow> same_geometry srv ks)"

text \<open>
  Two states of the loop over the keys \<open>K\<close> of the burst \<open>b\<close>: the tables are \<open>t0\<close> and
  the rows \<open>N\<close> appended for \<open>b\<close> so far, in the first with rows \<open>X\<close> in between; when
  the first row of the burst is in \<open>N\<close>, its geometry is the result \<open>rg\<close> of the reads.
\<close>

definition related ::
  "'g row list \<Rightarrow> 'g row list \<Rightarrow> string \<Rightarrow> string set \<Rightarrow> error + 'g \<Rightarrow> 'g state \<Rightarrow> 'g state \<Rightarrow> bool" where
  "related t0 X b K rg st st' =
     (\<exists>N. df st = t0 @ X @ N \<and> df st' = t0 @ N
        \<and> (\<forall>x\<in>set N. burst_id x = b)
        \<and> cslc_url ` set N \<subseteq> (\<lambda>k. s3_path @ ''/'' @ k) ` K
        \<and> ((\<forall>x\<in>set t0. burst_id x \<noteq> b) \<and> N \<noteq> [] \<longrightarrow> rg = Inr (geometry (hd N))))"

definition rel_outcome ::
  "('g state \<Rightarrow> 'g state \<Rightarrow> bool) \<Rightarrow> 'g outcome \<Rightarrow> 'g outcome \<Rightarrow> bool" where
  "rel_outcome R out out' =
     (case out of
        Completed s \<Rightarrow> (case out' of Completed s' \<Rightarrow> R s s' | Raised e' s' \<Rightarrow> False)
      | Raised e s \<Rightarrow> (case out' of Completed s' \<Rightarrow> False | Raised e' s' \<Rightarrow> True))"

text \<open>The notebook run again on the files a completed first run left.\<close>

definition second_run :: "'g services \<Rightarrow> 'g files \<Rightarrow> ('g files \<times> 'g outcome) option" where
  "second_run srv fs =
     (case notebook srv fs of
        Some (fs1, Completed st1) \<Rightarrow> notebook srv fs1
      | _ \<Rightarrow> None)"

subsection \<open>Example inputs\<close>

text \<open>A listing of two pages: three objects, one of them not a \<^verbatim>\<open>.h5\<close> file, then one.\<close>

definition two_pages :: "list_kwargs \<Rightarrow> list_resp" where
  "two_pages kwargs =
     (if ContinuationToken kwargs = None then
        \<lparr>Contents = Some [\<lparr>Key = ''p/b/2015/x.h5'', LastModified = 7\<rparr>,
                          \<lparr>Key = ''p/b/2014/x.h5'', LastModified = 3\<rparr>,
                          \<lparr>Key = ''p/b/2014/x.xml'', LastModified = 1\<rparr>],
         NextContinuationToken = Some ''t1''\<rparr>
      else if ContinuationToken kwargs = Some ''t1'' then
        \<lparr>Contents = Some [\<lparr>Key = ''p/b/2016/x.h5'', LastModified = 9\<rparr>],
         NextContinuationToken = None\<rparr>
      else \<lparr>Contents = None, NextContinuationToken = None\<rparr>)"

text \<open>
  An empty table, one burst of the network Ecuador, and a listing of two objects of
  that burst, of the dates 20141015 and 20141108.
\<close>

definition key_A1 :: string where
  "key_A1 = prefix @ ''/Ecuador/t142_303931_iw3/20141015/t142_303931_iw3_20141015.h5''"

definition key_A2 :: string where
  "key_A2 = prefix @ ''/Ecuador/t142_303931_iw3/20141108/t142_303931_iw3_20141108.h5''"

definition listing_A :: "list_kwargs \<Rightarrow> list_resp" where
  "listing_A kwargs =
     (if Prefix kwargs = prefix @ ''/Ecuador/t142_303931_iw3/20''
        \<and> ContinuationToken kwargs = None
      then \<lparr>Contents = Some [\<lparr>Key = key_A2, LastModified = 2\<rparr>,
                             \<lparr>Key = key_A1, LastModified = 1\<rparr>],
            NextContinuationToken = None\<rparr>
      else \<lparr>Contents = None, NextContinuationToken = None\<rparr>)"

definition services_A :: "string services" where
  "services_A =
     \<lparr>list_objects_v2 = listing_A,
      read_bounding_polygon = (\<lambda>url. Some ''POINT (0 0)''),
      wkt_loads = Some\<rparr>"

definition files_A :: "string files" where
  "files_A = \<lparr>validation_csv = None,
              validation_bursts = Some [(''t142_303931_iw3'', ''Ecuador'')]\<rparr>"

definition services_unreadable :: "string services" where
  "services_unreadable = services_A\<lparr>read_bounding_polygon := (\<lambda>url. None)\<rparr>"

text \<open>Two bursts with one object each, of the same date.\<close>

definition key_D1 :: string where
  "key_D1 = prefix @ ''/Ecuador/t142_303931_iw3/20141015/t142_303931_iw3_20141015.h5''"

definition key_D2 :: string where
  "key_D2 = prefix @ ''/Ecuador/t142_303932_iw1/20141015/t142_303932_iw1_20141015.h5''"

definition listing_D :: "list_kwargs \<Rightarrow> list_resp" where
  "listing_D kwargs =
     (if ContinuationToken kwargs \<noteq> None then
        \<lparr>Contents = None, NextContinuationToken = None\<rparr>
      else if Prefix kwargs = prefix @ ''/Ecuador/t142_303931_iw3/20'' then
        \<lparr>Contents = Some [\<lparr>Key = key_D1, LastModified = 1\<rparr>], NextContinuationToken = None\<rparr>
      else if Prefix kwargs = prefix @ ''/Ecuador/t142_303932_iw1/20'' then
        \<lparr>Contents = Some [\<lparr>Key = key_D2, LastModified = 1\<rparr>], NextContinuationToken = None\<rparr>
      else \<lparr>Contents = None, NextContinuationToken = None\<rparr>)"

definition services_D :: "string services" where
  "services_D =
     \<lparr>list_objects_v2 = listing_D,
      read_bounding_polygon = (\<lambda>url. Some ''POINT (0 0)''),
      wkt_loads = Some\<rparr>"

definition files_D :: "string files" where
  "files_D = \<lparr>validation_csv = None,
              validation_bursts =
                Some [(''t142_303932_iw1'', ''Ecuador''), (''t142_303931_iw3'', ''Ecuador'')]\<rparr>"

text \<open>One burst in two networks, with one object of the same date in each.\<close>

definition key_E2 :: string where
  "key_E2 = prefix @ ''/Oklahoma/t142_303931_iw3/20141015/t142_303931_iw3_20141015.h5''"

definition listing_E :: "list_kwargs \<Rightarrow> list_resp" where
  "listing_E kwargs =
     (if ContinuationToken kwargs \<noteq> None then
        \<lparr>Contents = None, NextContinuationToken = None\<rparr>
      else if Prefix kwargs = prefix @ ''/Ecuador/t142_303931_iw3/20'' then
        \<lparr>Contents = Some [\<lparr>Key = key_A1, LastModified = 1\<rparr>], NextContinuationToken = None\<rparr>
      else if Prefix kwargs = prefix @ ''/Oklahoma/t142_303931_iw3/20'' then
        \<lparr>Contents = Some [\<lparr>Key = key_E2, LastModified = 1\<rparr>], NextContinuationToken = None\<rparr>
      else \<lparr>Contents = None, NextContinuationToken = None\<rparr>)"

definition services_E :: "string services" where
  "services_E =
     \<lparr>list_objects_v2 = listing_E,
      read_bounding_polygon = (\<lambda>url. Some ''POINT (0 0)''),
      wkt_loads = Some\<rparr>"

text \<open>A saved table with one row, of an object that is not among the listed ones.\<close>

definition old_row :: "string csv_row" where
  "old_row =
     \<lparr>burst_id = ''t142_303931_iw3'', date = ''20141015'',
      cslc_url = s3_path @ ''/CSLC/pst_adt_common/t142_303931_iw3/20141015/t142_303931_iw3_20141015.h5'',
      cslc_static_url = None, geometry = ''POINT (1 1)''\<rparr>"

definition files_old :: "string files" where
  "files_old = \<lparr>validation_csv = Some (Csv [old_row]),
                validation_bursts = Some [(''t142_303931_iw3'', ''Ecuador'')]\<rparr>"

text \<open>
  Saved tables with one row: of the first object of the first scenario, with the
  burst file naming the other network; and of its second object.
\<close>

definition files_reloaded_E :: "string files" where
  "files_reloaded_E =
     \<lparr>validation_csv =
        Some (Csv [\<lparr>burst_id = ''t142_303931_iw3'', date = ''20141015'',
                    cslc_url = s3_path @ ''/'' @ key_A1, cslc_static_url = None,
                    geometry = ''POINT (0 0)''\<rparr>]),
      validation_bursts = Some [(''t142_303931_iw3'', ''Oklahoma'')]\<rparr>"

definition files_reloaded_A :: "string files" where
  "files_reloaded_A =
     \<lparr>validation_csv =
        Some (Csv [\<lparr>burst_id = ''t142_303931_iw3'', date = ''20141108'',
                    cslc_url = s3_path @ ''/'' @ key_A2, cslc_static_url = None,
                    geometry = ''POINT (0 0)''\<rparr>]),
      validation_bursts = Some [(''t142_303931_iw3'', ''Ecuador'')]\<rparr>"


text \<open>
  Two bursts; the first has two objects of the same date, and the geometry of the
  second of them cannot be read.
\<close>

definition key_F2 :: string where
  "key_F2 = prefix @ ''/Ecuador/t142_303931_iw3/20141015/t142_303931_iw3_20141015_v2.h5''"

definition listing_F :: "list_kwargs \<Rightarrow> list_resp" where
  "listing_F kwargs =
     (if ContinuationToken kwargs \<noteq> None then
        \<lparr>Contents = None, NextContinuationToken = None\<rparr>
      else if Prefix kwargs = prefix @ ''/Ecuador/t142_303931_iw3/20'' then
        \<lparr>Contents = Some [\<lparr>Key = key_D1, LastModified = 1\<rparr>, \<lparr>Key = key_F2, LastModified = 2\<rparr>],
         NextContinuationToken = None\<rparr>
      else if Prefix kwargs = prefix @ ''/Ecuador/t142_303932_iw1/20'' then
        \<lparr>Contents = Some [\<lparr>Key = key_D2, LastModified = 1\<rparr>], NextContinuationToken = None\<rparr>
      else \<lparr>Contents = None, NextContinuationToken = None\<rparr>)"

definition services_F :: "string services" where
  "services_F =
     \<lparr>list_objects_v2 = listing_F,
      read_bounding_polygon =
        (\<lambda>url. if url = s3_path @ ''/'' @ key_F2 then None else Some ''POINT (0 0)''),
      wkt_loads = Some\<rparr>"

definition table_F :: "string row list" where
  "table_F =
     [\<lparr>burst_id = ''t142_303931_iw3'', date = PyStr ''20141015'',
       cslc_url = s3_path @ ''/'' @ key_D1, cslc_static_url = None,
       geometry = ''POINT (0 0)''\<rparr>,
      \<lparr>burst_id = ''t142_303932_iw1'', date = PyStr ''20141015'',
       cslc_url = s3_path @ ''/'' @ key_D2, cslc_static_url = None,
       geometry = ''POINT (0 0)''\<rparr>]"

text \<open>The file written for it, and the table the second run loads from the file.\<close>

definition saved_F :: "string csv" where
  "saved_F = Csv (map (with_date ''20141015'') table_F)"

definition loaded_F :: "string row list" where
  "loaded_F = map (with_date (PyInt 20141015)) table_F"

section \<open>Properties\<close>

subsection \<open>The key generator\<close>

lemma list_loop_no_contents:
  "Contents (lo kw) = None \<Longrightarrow> list_loop lo suf kw = Some []"
  by (subst list_loop.simps) simp

lemma list_loop_last_page:
  "Contents (lo kw) = Some vr \<Longrightarrow> NextContinuationToken (lo kw) = None \<Longrightarrow>
   list_loop lo suf kw = Some (page_keys suf vr)"
  by (subst list_loop.simps) simp

lemma list_loop_next_page:
  "Contents (lo kw) = Some vr \<Longrightarrow> NextContinuationToken (lo kw) = Some tok \<Longrightarrow>
   list_loop lo suf kw =
     Option.bind (list_loop lo suf (kw\<lparr>ContinuationToken := Some tok\<rparr>))
       (\<lambda>rest. Some (page_keys suf vr @ rest))"
  by (subst list_loop.simps) simp

lemma page_keys_endswith: "k \<in> set (page_keys suf vr) \<Longrightarrow> endswith k suf"
  by (simp add: page_keys_def)

lemma list_loop_pages:
  "finite_listing n lo kw \<Longrightarrow>
   list_loop lo suf kw = Some (concat (map (page_keys suf) (pages n lo kw)))"
proof (induction n arbitrary: kw)
  case 0
  then show ?case by simp
next
  case (Suc n)
  show ?case
  proof (cases "Contents (lo kw)")
    case None
    then show ?thesis by (simp add: list_loop_no_contents)
  next
    case (Some vr)
    note c = this
    show ?thesis
    proof (cases "NextContinuationToken (lo kw)")
      case None
      with c show ?thesis by (simp add: list_loop_last_page)
    next
      case (Some tok)
      with c Suc.prems have "finite_listing n lo (kw\<lparr>ContinuationToken := Some tok\<rparr>)"
        by simp
      from Suc.IH [OF this] c Some show ?thesis
        by (simp add: list_loop_next_page)
    qed
  qed
qed

text \<open>
  C8. When the listing ends within \<open>n\<close> responses, the generator returns: it yields the
  keys of page after page along the continuation tokens and stops at the first
  response without a token (or without contents); every key it yields ends with the
  suffix; and a first response without contents gives no key at all, not an error.
\<close>

theorem get_matching_s3_keys_terminates:
  assumes "finite_listing n lo
             \<lparr>Bucket = b, Prefix = p @ ''/'' @ burst @ ''/20'', ContinuationToken = None\<rparr>"
  shows "\<exists>ks. get_matching_s3_keys lo b p suf burst v = Some ks
           \<and> ks = concat (map (page_keys suf) (pages n lo
                    \<lparr>Bucket = b, Prefix = p @ ''/'' @ burst @ ''/20'',
                     ContinuationToken = None\<rparr>))
           \<and> (\<forall>k\<in>set ks. endswith k suf)
           \<and> (Contents (lo \<lparr>Bucket = b, Prefix = p @ ''/'' @ burst @ ''/20'',
                             ContinuationToken = None\<rparr>) = None \<longrightarrow> ks = [])"
proof -
  let ?kw = "\<lparr>Bucket = b, Prefix = p @ ''/'' @ burst @ ''/20'', ContinuationToken = None\<rparr>"
  have run: "get_matching_s3_keys lo b p suf burst v =
               Some (concat (map (page_keys suf) (pages n lo ?kw)))"
    using assms by (simp add: get_matching_s3_keys_def list_loop_pages)
  have ends: "\<forall>k\<in>set (concat (map (page_keys suf) (pages n lo ?kw))). endswith k suf"
    by (auto dest: page_keys_endswith)
  have none: "Contents (lo ?kw) = None \<longrightarrow> concat (map (page_keys suf) (pages n lo ?kw)) = []"
    by (cases n) simp_all
  from ends none show ?thesis unfolding run by simp
qed

theorem get_matching_s3_keys_terminates_witness:
  "finite_listing 2 two_pages
     \<lparr>Bucket = ''bk'', Prefix = ''p'' @ ''/'' @ ''b'' @ ''/20'', ContinuationToken = None\<rparr> \<and>
   get_matching_s3_keys two_pages ''bk'' ''p'' ''.h5'' ''b'' ''1.0'' =
     Some [''p/b/2014/x.h5'', ''p/b/2015/x.h5'', ''p/b/2016/x.h5'']"
  using get_matching_s3_keys_terminates
          [of 2 two_pages "''bk''" "''p''" "''b''" "''.h5''" "''1.0''"]
  by (simp add: two_pages_def page_keys_def endswith_def numeral_2_eq_2)

text \<open>
  C9. The keys the generator yields do not depend on its argument \<^verbatim>\<open>version_num\<close>:
  two calls that differ in nothing else yield the same keys (or both never return).
\<close>

theorem get_matching_s3_keys_ignores_version_num:
  "get_matching_s3_keys lo b p suf burst v1 = get_matching_s3_keys lo b p suf burst v2"
  by (simp add: get_matching_s3_keys_def)

subsection \<open>Removing duplicates and sorting\<close>

lemma set_drop_duplicates: "set (drop_duplicates k xs) \<subseteq> set xs"
  by (induction k xs rule: drop_duplicates.induct) auto

lemma image_drop_duplicates: "k ` set (drop_duplicates k xs) = k ` set xs"
proof (induction k xs rule: drop_duplicates.induct)
  case (1 k)
  then show ?case by simp
next
  case (2 k x xs)
  have "k ` set (filter (\<lambda>y. k y \<noteq> k x) xs) = k ` set xs - {k x}" by auto
  with 2 show ?case by auto
qed

lemma distinct_drop_duplicates: "distinct (map k (drop_duplicates k xs))"
proof (induction k xs rule: drop_duplicates.induct)
  case (1 k)
  then show ?case by simp
next
  case (2 k x xs)
  have "k x \<notin> k ` set (filter (\<lambda>y. k y \<noteq> k x) xs)" by auto
  then have "k x \<notin> k ` set (drop_duplicates k (filter (\<lambda>y. k y \<noteq> k x) xs))"
    by (simp add: image_drop_duplicates)
  with 2 show ?case by simp
qed

lemma drop_duplicates_find:
  "x \<in> set (drop_duplicates k xs) \<longleftrightarrow> List.find (\<lambda>y. k y = k x) xs = Some x"
proof (induction k xs arbitrary: x rule: drop_duplicates.induct)
  case (1 k)
  then show ?case by simp
next
  case (2 k y ys)
  have f: "k x \<noteq> k y \<Longrightarrow>
        List.find (\<lambda>z. k z = k x) (filter (\<lambda>z. k z \<noteq> k y) ys) = List.find (\<lambda>z. k z = k x) ys"
    by (induction ys) auto
  show ?case
  proof (cases "k y = k x")
    case True
    have "x \<notin> set (drop_duplicates k (filter (\<lambda>z. k z \<noteq> k y) ys))"
      using set_drop_duplicates [of k "filter (\<lambda>z. k z \<noteq> k y) ys"] True by auto
    with True show ?thesis by auto
  next
    case False
    with 2 [of x] f show ?thesis by auto
  qed
qed

lemma distinct_save_table: "distinct (map burst_date (save_table t))"
  unfolding save_table_def sort_values_def
  by (metis distinct_drop_duplicates distinct_map distinct_sort set_sort)

lemma set_save_table: "set (save_table t) = set (drop_duplicates burst_date t)"
  by (simp add: save_table_def sort_values_def)

lemma sorted_save_table: "sorted (map burst_date (save_table t))"
  by (simp add: save_table_def sort_values_def)

lemma notebook_Completed:
  assumes "notebook srv fs = Some (fs', Completed st)"
  obtains t0 df_val st1 where
    "load_table fs = Inr t0"
    "validation_bursts fs = Some df_val"
    "main_loop srv \<lparr>df = t0, calls = []\<rparr> df_val = Some (Completed st1)"
    "st = st1\<lparr>df := save_table (df st1)\<rparr>"
    "fs' = fs\<lparr>validation_csv :=
             Some (to_csv (validation_csv fs \<noteq> None) (save_table (df st1)))\<rparr>"
  using assms
  by (auto simp: notebook_def Let_def split: sum.splits option.splits outcome.splits)

lemma final_tableE:
  assumes "final_table r = Some t"
  obtains fs' st where "r = Some (fs', Completed st)" "df st = t"
  using assms by (auto simp: final_table_def split: option.splits outcome.splits)

text \<open>
  C3, at a saved table with one row of the burst, of the date 20141015, and a listing
  with another object of that burst and date. The loaded date is the integer 20141015,
  the appended one the string, the duplicate removal takes them for different, and the
  table written has two rows of the one burst id and date.
\<close>

theorem reloaded_table_keeps_duplicate:
  "map_option (map burst_date) (final_table (notebook services_E files_reloaded_E)) =
     Some [(''t142_303931_iw3'', PyInt 20141015), (''t142_303931_iw3'', PyStr ''20141015'')]
   \<and> map_option (map burst_date) (saved_rows (notebook services_E files_reloaded_E)) =
     Some [(''t142_303931_iw3'', ''20141015''), (''t142_303931_iw3'', ''20141015'')]"
  by code_simp

text \<open>
  C4, at a saved table with one row of the date 20141108 and a listing with an earlier
  object of the same burst, of the date 20141015. The loaded date is an integer, the
  appended one a string, the sort puts the integer first, and the table written has
  the date 20141108 before the date 20141015.
\<close>

theorem reloaded_table_not_sorted:
  "map_option (map burst_date) (final_table (notebook services_A files_reloaded_A)) =
     Some [(''t142_303931_iw3'', PyInt 20141108), (''t142_303931_iw3'', PyStr ''20141015'')]
   \<and> map_option (map burst_date) (saved_rows (notebook services_A files_reloaded_A)) =
     Some [(''t142_303931_iw3'', ''20141108''), (''t142_303931_iw3'', ''20141015'')]"
  by code_simp

subsection \<open>The loop body\<close>

lemma loop_body_cases [case_names skip index_error reuse read_fail read_ok]:
  obtains
    "s3_path @ ''/'' @ key \<in> cslc_url ` set (df st)"
      "loop_body srv burst st key = Completed st"
  | "s3_path @ ''/'' @ key \<notin> cslc_url ` set (df st)"
      "second_to_last (split CHR ''/'' key) = None"
      "loop_body srv burst st key = Raised IndexError st"
  | d i where
      "s3_path @ ''/'' @ key \<notin> cslc_url ` set (df st)"
      "second_to_last (split CHR ''/'' key) = Some d"
      "first_index (df st) burst = Label i" "i \<noteq> 0"
      "loop_body srv burst st key =
         Completed (append_row st
           \<lparr>burst_id = burst, date = PyStr d, cslc_url = s3_path @ ''/'' @ key,
            cslc_static_url = None, geometry = geometry (df st ! i)\<rparr>)"
  | d e where
      "s3_path @ ''/'' @ key \<notin> cslc_url ` set (df st)"
      "second_to_last (split CHR ''/'' key) = Some d"
      "\<not> ne_False (first_index (df st) burst)"
      "read_geometry srv (s3_path @ ''/'' @ key) = Inl e"
      "loop_body srv burst st key =
         Raised e (st\<lparr>calls := calls st @ [Read_geometry (s3_path @ ''/'' @ key)]\<rparr>)"
  | d g where
      "s3_path @ ''/'' @ key \<notin> cslc_url ` set (df st)"
      "second_to_last (split CHR ''/'' key) = Some d"
      "\<not> ne_False (first_index (df st) burst)"
      "read_geometry srv (s3_path @ ''/'' @ key) = Inr g"
      "loop_body srv burst st key =
         Completed (append_row (st\<lparr>calls := calls st @ [Read_geometry (s3_path @ ''/'' @ key)]\<rparr>)
           \<lparr>burst_id = burst, date = PyStr d, cslc_url = s3_path @ ''/'' @ key,
            cslc_static_url = None, geometry = g\<rparr>)"
proof (cases "s3_path @ ''/'' @ key \<in> cslc_url ` set (df st)")
  case True
  then show ?thesis using that(1) by (simp add: loop_body_def Let_def)
next
  case new: False
  show ?thesis
  proof (cases "second_to_last (split CHR ''/'' key)")
    case None
    with new show ?thesis using that(2) by (simp add: loop_body_def Let_def)
  next
    case (Some d)
    show ?thesis
    proof (cases "ne_False (first_index (df st) burst)")
      case True
      then obtain i where "first_index (df st) burst = Label i" "i \<noteq> 0"
        by (cases "first_index (df st) burst") auto
      with new Some show ?thesis using that(3) by (simp add: loop_body_def Let_def)
    next
      case False
      show ?thesis
      proof (cases "read_geometry srv (s3_path @ ''/'' @ key)")
        case (Inl e)
        with new Some False show ?thesis using that(4) by (simp add: loop_body_def Let_def)
      next
        case (Inr g)
        with new Some False show ?thesis using that(5) by (simp add: loop_body_def Let_def)
      qed
    qed
  qed
qed

lemma reads_inv_simps [simp]:
  "reads_inv srv (Completed st) = reads_ok srv st"
  "reads_inv srv (Raised e st) = failed_read srv e st"
  by (simp_all add: reads_inv_def)

lemma loop_body_reads:
  assumes "reads_ok srv st"
  shows "reads_inv srv (loop_body srv burst st key)"
proof (cases rule: loop_body_cases [where key = key and st = st and srv = srv and burst = burst])
  case skip
  with assms show ?thesis by simp
next
  case index_error
  with assms show ?thesis by (fastforce simp: reads_ok_def failed_read_def)
next
  case (reuse d i)
  with assms show ?thesis by (simp add: reads_ok_def append_row_def)
next
  case (read_fail d e)
  let ?st' = "st\<lparr>calls := calls st @ [Read_geometry (s3_path @ ''/'' @ key)]\<rparr>"
  have "failed_read srv e ?st'"
    unfolding failed_read_def
  proof (intro allI impI)
    fix url e'
    assume "Read_geometry url \<in> set (calls ?st')" "read_geometry srv url = Inl e'"
    with assms have "url = s3_path @ ''/'' @ key"
      by (auto simp: reads_ok_def)
    with read_fail \<open>read_geometry srv url = Inl e'\<close>
    show "e' = e \<and> last (calls ?st') = Read_geometry url \<and> url \<notin> cslc_url ` set (df ?st')"
      by simp
  qed
  with read_fail show ?thesis by simp
next
  case (read_ok d g)
  with assms show ?thesis by (auto simp: reads_ok_def append_row_def)
qed

lemma for_keys_reads:
  "reads_ok srv st \<Longrightarrow> reads_inv srv (for_keys srv burst st keys)"
proof (induction keys arbitrary: st)
  case Nil
  then show ?case by simp
next
  case (Cons key keys)
  from loop_body_reads [OF Cons.prems, of burst key] Cons.IH
  show ?case by (cases "loop_body srv burst st key") simp_all
qed

lemma main_loop_reads:
  "reads_ok srv st \<Longrightarrow> main_loop srv st df_val = Some out \<Longrightarrow> reads_inv srv out"
proof (induction df_val arbitrary: st)
  case Nil
  then show ?case by auto
next
  case (Cons a df_val)
  obtain burst cr_network where a: "a = (burst, cr_network)" by (cases a)
  let ?st1 = "st\<lparr>calls := calls st @ [List_keys (prefix @ ''/'' @ cr_network) burst]\<rparr>"
  have ok1: "reads_ok srv ?st1" using Cons.prems(1) by (simp add: reads_ok_def)
  from Cons.prems(2) a obtain keys where
    out: "(case for_keys srv burst ?st1 keys of
            Completed st2 \<Rightarrow> main_loop srv st2 df_val
          | Raised e st2 \<Rightarrow> Some (Raised e st2)) = Some out"
    by (auto simp: Let_def split: option.splits)
  show ?case
  proof (cases "for_keys srv burst ?st1 keys")
    case (Completed st2)
    with for_keys_reads [OF ok1, of burst keys] have "reads_ok srv st2" by simp
    moreover from out Completed have "main_loop srv st2 df_val = Some out" by simp
    ultimately show ?thesis by (rule Cons.IH)
  next
    case (Raised e st2)
    with for_keys_reads [OF ok1, of burst keys] out show ?thesis by auto
  qed
qed

text \<open>
  C6. When a read of a geometry made during a run fails, reading the file or decoding
  the text, the run raises that error there: the read is the last call made, the
  table has no row for that URL, and the files are as they were.
\<close>

theorem failed_read_aborts:
  assumes "notebook srv fs = Some (fs', out)"
    and "Read_geometry url \<in> set (calls (state_of out))"
    and "read_geometry srv url = Inl e"
  shows "out = Raised e (state_of out) \<and> fs' = fs
         \<and> url \<notin> cslc_url ` set (df (state_of out))
         \<and> last (calls (state_of out)) = Read_geometry url"
proof (cases "load_table fs")
  case (Inl e0)
  with assms(1,2) show ?thesis by (auto simp: notebook_def)
next
  case (Inr t0)
  let ?st0 = "\<lparr>df = t0, calls = []\<rparr>"
  show ?thesis
  proof (cases "validation_bursts fs")
    case None
    with Inr assms(1,2) show ?thesis by (auto simp: notebook_def)
  next
    case (Some df_val)
    have ok0: "reads_ok srv ?st0" by (simp add: reads_ok_def)
    from assms(1) Inr Some obtain out1 where m: "main_loop srv ?st0 df_val = Some out1"
      by (auto simp: notebook_def Let_def split: option.splits)
    note inv = main_loop_reads [OF ok0 m]
    show ?thesis
    proof (cases out1)
      case (Completed st1)
      with assms(1) Inr Some m have "calls (state_of out) = calls st1"
        by (auto simp: notebook_def Let_def)
      with inv Completed assms(2,3) show ?thesis by (auto simp: reads_ok_def)
    next
      case (Raised e1 st1)
      with assms(1) Inr Some m have o: "out = Raised e1 st1" "fs' = fs"
        by (auto simp: notebook_def Let_def)
      with inv Raised assms(2,3) show ?thesis by (auto simp: failed_read_def)
    qed
  qed
qed

theorem failed_read_aborts_witness:
  "\<exists>fs' out. notebook services_unreadable files_A = Some (fs', out)
     \<and> Read_geometry (s3_path @ ''/'' @ key_A1) \<in> set (calls (state_of out))
     \<and> read_geometry services_unreadable (s3_path @ ''/'' @ key_A1) = Inl ReadError
     \<and> out = Raised ReadError (state_of out) \<and> fs' = files_A \<and> df (state_of out) = []"
proof -
  have "case notebook services_unreadable files_A of
          Some (fs', out) \<Rightarrow>
            Read_geometry (s3_path @ ''/'' @ key_A1) \<in> set (calls (state_of out))
            \<and> df (state_of out) = []
        | None \<Rightarrow> False"
    by code_simp
  then obtain fs' out where run: "notebook services_unreadable files_A = Some (fs', out)"
    and c: "Read_geometry (s3_path @ ''/'' @ key_A1) \<in> set (calls (state_of out))"
    and d: "df (state_of out) = []"
    by (auto split: option.splits)
  have r: "read_geometry services_unreadable (s3_path @ ''/'' @ key_A1) = Inl ReadError"
    by (simp add: read_geometry_def services_unreadable_def)
  from failed_read_aborts [OF run c r]
  have a: "out = Raised ReadError (state_of out)" "fs' = files_A" by simp_all
  show ?thesis by (intro exI conjI) (rule run c r a d)+
qed




text \<open>
  C1, at the first scenario: the table is empty, the burst has two objects. The row of
  the first object gets the index 0, the test \<^verbatim>\<open>idx_geo != False\<close> is false at 0, and
  the geometry is read a second time for the second object.
\<close>

theorem scenario_A_reads_geometry_twice:
  "map_option (\<lambda>(fs', out). calls (state_of out)) (notebook services_A files_A) =
     Some [List_keys (prefix @ ''/Ecuador'') ''t142_303931_iw3'',
           Read_geometry (s3_path @ ''/'' @ key_A1),
           Read_geometry (s3_path @ ''/'' @ key_A2)]"
  by code_simp

subsection \<open>The index of the first row of a burst\<close>

lemma filter_upt_Cons:
  "filter (\<lambda>i. P ((x # t) ! i)) [0..<Suc (length t)] =
     (if P x then [0] else []) @ map Suc (filter (\<lambda>i. P (t ! i)) [0..<length t])"
proof -
  have "[0..<Suc (length t)] = 0 # map Suc [0..<length t]"
    by (simp add: upt_conv_Cons map_Suc_upt del: upt_Suc)
  then show ?thesis by (simp add: filter_map o_def del: upt_Suc)
qed

lemma first_index_Nil [simp]: "first_index [] b = PyFalse"
  by (simp add: first_index_def)

lemma first_index_Cons:
  "first_index (x # t) b =
     (if burst_id x = b then Label 0
      else (case first_index t b of Label i \<Rightarrow> Label (Suc i) | PyFalse \<Rightarrow> PyFalse))"
proof -
  have "filter (\<lambda>i. burst_id ((x # t) ! i) = b) [0..<length (x # t)] =
     (if burst_id x = b then [0] else []) @
       map Suc (filter (\<lambda>i. burst_id (t ! i) = b) [0..<length t])"
    using filter_upt_Cons [of "\<lambda>r. burst_id r = b" x t] by simp
  then show ?thesis
    unfolding first_index_def by (simp split: list.splits)
qed

lemma first_index_PyFalse: "first_index t b = PyFalse \<longleftrightarrow> (\<forall>x\<in>set t. burst_id x \<noteq> b)"
  by (induction t) (auto simp: first_index_Cons split: idx.splits)

lemma first_index_Label:
  "first_index t b = Label i \<Longrightarrow> i < length t \<and> burst_id (t ! i) = b"
proof (induction t arbitrary: i)
  case Nil
  then show ?case by simp
next
  case (Cons x t)
  then show ?case
    by (auto simp: first_index_Cons split: if_splits idx.splits)
qed

lemma first_index_append:
  "first_index (xs @ ys) b =
     (if \<exists>x\<in>set xs. burst_id x = b then first_index xs b
      else (case first_index ys b of Label i \<Rightarrow> Label (length xs + i) | PyFalse \<Rightarrow> PyFalse))"
  by (induction xs) (auto simp: first_index_Cons split: idx.splits)

lemma first_index_hd:
  "ys \<noteq> [] \<Longrightarrow> burst_id (hd ys) = b \<Longrightarrow> first_index ys b = Label 0"
  by (cases ys) (simp_all add: first_index_Cons)

lemma url_of_inj [simp]: "url_of k = url_of k' \<longleftrightarrow> k = k'"
  by simp

lemma loop_body_skip:
  "url_of key \<in> cslc_url ` set (df st) \<Longrightarrow> loop_body srv burst st key = Completed st"
  by (simp add: loop_body_def)

lemma loop_body_index_error:
  "url_of key \<notin> cslc_url ` set (df st) \<Longrightarrow> second_to_last (split CHR ''/'' key) = None \<Longrightarrow>
   loop_body srv burst st key = Raised IndexError st"
  by (simp add: loop_body_def)

lemma loop_body_reuse:
  "url_of key \<notin> cslc_url ` set (df st) \<Longrightarrow> second_to_last (split CHR ''/'' key) = Some d \<Longrightarrow>
   first_index (df st) burst = Label i \<Longrightarrow> i \<noteq> 0 \<Longrightarrow>
   loop_body srv burst st key =
     Completed (append_row st (new_row burst d key (geometry (df st ! i))))"
  by (simp add: loop_body_def)

lemma loop_body_read:
  "url_of key \<notin> cslc_url ` set (df st) \<Longrightarrow> second_to_last (split CHR ''/'' key) = Some d \<Longrightarrow>
   \<not> ne_False (first_index (df st) burst) \<Longrightarrow>
   loop_body srv burst st key =
     (case read_geometry srv (url_of key) of
        Inl e \<Rightarrow> Raised e (st\<lparr>calls := calls st @ [Read_geometry (url_of key)]\<rparr>)
      | Inr g \<Rightarrow>
          Completed (append_row (st\<lparr>calls := calls st @ [Read_geometry (url_of key)]\<rparr>)
            (new_row burst d key g)))"
  by (simp add: loop_body_def Let_def split: sum.splits)

subsection \<open>One burst, whatever was appended before it\<close>

lemma rel_outcome_simps [simp]:
  "rel_outcome R (Completed s) (Completed s') = R s s'"
  "rel_outcome R (Completed s) (Raised e' s') = False"
  "rel_outcome R (Raised e s) (Completed s') = False"
  "rel_outcome R (Raised e s) (Raised e' s') = True"
  by (simp_all add: rel_outcome_def)

lemma loop_body_new_read:
  assumes "url_of key \<notin> cslc_url ` set (df st)"
    and "second_to_last (split CHR ''/'' key) = Some d"
    and "\<not> ne_False (first_index (df st) burst)"
    and "read_geometry srv (url_of key) = Inr g"
  shows "\<exists>st2. loop_body srv burst st key = Completed st2
           \<and> df st2 = df st @ [new_row burst d key g]"
  using assms by (simp add: loop_body_read append_row_def)

lemma loop_body_new_fail:
  assumes "url_of key \<notin> cslc_url ` set (df st)"
    and "second_to_last (split CHR ''/'' key) = Some d"
    and "\<not> ne_False (first_index (df st) burst)"
    and "read_geometry srv (url_of key) = Inl e"
  shows "\<exists>s. loop_body srv burst st key = Raised e s"
  using assms by (simp add: loop_body_read)

lemma loop_body_new_reuse:
  assumes "url_of key \<notin> cslc_url ` set (df st)"
    and "second_to_last (split CHR ''/'' key) = Some d"
    and "first_index (df st) burst = Label i" "i \<noteq> 0"
  shows "\<exists>st2. loop_body srv burst st key = Completed st2
           \<and> df st2 = df st @ [new_row burst d key (geometry (df st ! i))]"
  using assms by (simp add: loop_body_reuse append_row_def)

lemma loop_body_new_same:
  assumes "url_of key \<notin> cslc_url ` set (df st)"
    and "second_to_last (split CHR ''/'' key) = Some d"
    and "first_index (df st) burst = Label i"
    and "read_geometry srv (url_of key) = Inr (geometry (df st ! i))"
  shows "\<exists>st2. loop_body srv burst st key = Completed st2
           \<and> df st2 = df st @ [new_row burst d key (geometry (df st ! i))]"
proof (cases "i = 0")
  case True
  with assms show ?thesis by (intro loop_body_new_read) simp_all
next
  case False
  with assms show ?thesis by (intro loop_body_new_reuse) simp_all
qed

lemma related_append:
  assumes "df st = t0 @ X @ N" "df st' = t0 @ N"
    and "\<forall>x\<in>set N. burst_id x = b"
    and "cslc_url ` set N \<subseteq> url_of ` K"
    and "(\<forall>x\<in>set t0. burst_id x \<noteq> b) \<and> N \<noteq> [] \<longrightarrow> rg = Inr (geometry (hd N))"
    and "df st2 = df st @ [new_row b d k g]" "df st2' = df st' @ [new_row b d k g]"
    and "k \<in> K"
    and "(\<forall>x\<in>set t0. burst_id x \<noteq> b) \<and> N = [] \<longrightarrow> rg = Inr g"
  shows "related t0 X b K rg st2 st2'"
  unfolding related_def
proof (intro exI [of _ "N @ [new_row b d k g]"] conjI)
  show "df st2 = t0 @ X @ N @ [new_row b d k g]" using assms by simp
  show "df st2' = t0 @ N @ [new_row b d k g]" using assms by simp
  show "\<forall>x\<in>set (N @ [new_row b d k g]). burst_id x = b" using assms(3) by simp
  show "cslc_url ` set (N @ [new_row b d k g]) \<subseteq> url_of ` K"
    using assms(4,8) by auto
  show "(\<forall>x\<in>set t0. burst_id x \<noteq> b) \<and> N @ [new_row b d k g] \<noteq> [] \<longrightarrow>
        rg = Inr (geometry (hd (N @ [new_row b d k g])))"
    using assms(5,9) by (cases N) auto
qed

lemma sim_loop_body:
  assumes rel: "related t0 X b K rg st st'"
    and k: "k \<in> K"
    and rg: "read_geometry srv (url_of k) = rg"
    and c1: "\<forall>x\<in>set X. burst_id x \<noteq> b"
    and c2: "url_of k \<notin> cslc_url ` set X"
  shows "rel_outcome (related t0 X b K rg) (loop_body srv b st k) (loop_body srv b st' k)"
proof -
  from rel obtain N where
    st: "df st = t0 @ X @ N" and st': "df st' = t0 @ N"
    and bN: "\<forall>x\<in>set N. burst_id x = b"
    and uN: "cslc_url ` set N \<subseteq> url_of ` K"
    and gN: "(\<forall>x\<in>set t0. burst_id x \<noteq> b) \<and> N \<noteq> [] \<longrightarrow> rg = Inr (geometry (hd N))"
    unfolding related_def by blast
  note app = related_append [OF st st' bN uN gN _ _ k]
  have mem: "url_of k \<in> cslc_url ` set (df st) \<longleftrightarrow> url_of k \<in> cslc_url ` set (df st')"
    using c2 st st' by auto
  show ?thesis
  proof (cases "url_of k \<in> cslc_url ` set (df st)")
    case True
    with mem rel show ?thesis by (simp add: loop_body_skip)
  next
    case new: False
    with mem have new': "url_of k \<notin> cslc_url ` set (df st')" by simp
    show ?thesis
    proof (cases "second_to_last (split CHR ''/'' k)")
      case None
      with new new' show ?thesis by (simp add: loop_body_index_error)
    next
      case (Some d)
      show ?thesis
      proof (cases "\<exists>x\<in>set t0. burst_id x = b")
        case True
        then obtain i where i: "first_index t0 b = Label i"
          by (cases "first_index t0 b") (auto simp: first_index_PyFalse)
        then have il: "i < length t0" by (auto dest: first_index_Label)
        from True i have fi: "first_index (df st) b = Label i" "first_index (df st') b = Label i"
          by (simp_all add: st st' first_index_append)
        from il have nth: "df st ! i = t0 ! i" "df st' ! i = t0 ! i"
          by (simp_all add: st st' nth_append)
        show ?thesis
        proof (cases "i = 0")
          case False
          from loop_body_new_reuse [OF new Some fi(1) False, of srv]
            loop_body_new_reuse [OF new' Some fi(2) False, of srv]
          obtain st2 st2' where
            "loop_body srv b st k = Completed st2"
            "df st2 = df st @ [new_row b d k (geometry (t0 ! i))]"
            "loop_body srv b st' k = Completed st2'"
            "df st2' = df st' @ [new_row b d k (geometry (t0 ! i))]"
            unfolding nth by blast
          with app [of st2 d "geometry (t0 ! i)" st2'] True show ?thesis by auto
        next
          case i0: True
          with fi have nf: "\<not> ne_False (first_index (df st) b)"
            "\<not> ne_False (first_index (df st') b)" by simp_all
          show ?thesis
          proof (cases rg)
            case (Inl e)
            with loop_body_new_fail [OF new Some nf(1), of srv e]
              loop_body_new_fail [OF new' Some nf(2), of srv e] rg
            show ?thesis by auto
          next
            case (Inr g)
            with loop_body_new_read [OF new Some nf(1), of srv g]
              loop_body_new_read [OF new' Some nf(2), of srv g] rg
            obtain st2 st2' where
              "loop_body srv b st k = Completed st2"
              "df st2 = df st @ [new_row b d k g]"
              "loop_body srv b st' k = Completed st2'"
              "df st2' = df st' @ [new_row b d k g]"
              by auto
            with app [of st2 d g st2'] True show ?thesis by auto
          qed
        qed
      next
        case no: False
        show ?thesis
        proof (cases "N = []")
          case True
          from no c1 True have nf: "\<not> ne_False (first_index (df st) b)"
            "\<not> ne_False (first_index (df st') b)"
            using first_index_PyFalse [of "df st" b] first_index_PyFalse [of "df st'" b]
            by (auto simp: st st')
          show ?thesis
          proof (cases rg)
            case (Inl e)
            with loop_body_new_fail [OF new Some nf(1), of srv e]
              loop_body_new_fail [OF new' Some nf(2), of srv e] rg
            show ?thesis by auto
          next
            case (Inr g)
            with loop_body_new_read [OF new Some nf(1), of srv g]
              loop_body_new_read [OF new' Some nf(2), of srv g] rg
            obtain st2 st2' where
              "loop_body srv b st k = Completed st2"
              "df st2 = df st @ [new_row b d k g]"
              "loop_body srv b st' k = Completed st2'"
              "df st2' = df st' @ [new_row b d k g]"
              by auto
            with app [of st2 d g st2'] Inr show ?thesis by simp
          qed
        next
          case ne: False
          with bN have hb: "burst_id (hd N) = b" by (cases N) auto
          from no ne gN have g0: "rg = Inr (geometry (hd N))" by simp
          from no c1 ne hb have fi:
            "first_index (df st) b = Label (length t0 + length X)"
            "first_index (df st') b = Label (length t0)"
            by (simp_all add: st st' first_index_append first_index_hd)
          from ne have nth: "df st ! (length t0 + length X) = hd N" "df st' ! (length t0) = hd N"
            by (simp_all add: st st' nth_append hd_conv_nth)
          from loop_body_new_same [OF new Some fi(1), of srv]
            loop_body_new_same [OF new' Some fi(2), of srv] rg g0
          obtain st2 st2' where
            "loop_body srv b st k = Completed st2"
            "df st2 = df st @ [new_row b d k (geometry (hd N))]"
            "loop_body srv b st' k = Completed st2'"
            "df st2' = df st' @ [new_row b d k (geometry (hd N))]"
            unfolding nth by auto
          with app [of st2 d "geometry (hd N)" st2'] ne show ?thesis by simp
        qed
      qed
    qed
  qed
qed

lemma same_geometryD:
  "same_geometry srv ks \<Longrightarrow> k \<in> set ks \<Longrightarrow> k' \<in> set ks \<Longrightarrow>
   read_geometry srv (url_of k) = read_geometry srv (url_of k')"
  unfolding same_geometry_def
  by (drule bspec [of _ _ k], assumption, drule bspec [of _ _ k'], assumption, assumption)

lemma main_loop_Cons:
  "main_loop srv st (e # rest) =
     (case listed srv e of
        None \<Rightarrow> None
      | Some keys \<Rightarrow>
          (case for_keys srv (fst e)
                  (st\<lparr>calls := calls st @ [List_keys (prefix @ ''/'' @ snd e) (fst e)]\<rparr>) keys of
             Completed st2 \<Rightarrow> main_loop srv st2 rest
           | Raised err st2 \<Rightarrow> Some (Raised err st2)))"
  by (cases e) (auto simp: listed_def Let_def split: option.splits)

lemma sim_for_keys:
  assumes "related t0 X b K rg st st'"
    and "set ks \<subseteq> K"
    and "\<forall>k\<in>K. read_geometry srv (url_of k) = rg"
    and "\<forall>x\<in>set X. burst_id x \<noteq> b"
    and "\<forall>k\<in>K. url_of k \<notin> cslc_url ` set X"
  shows "rel_outcome (related t0 X b K rg) (for_keys srv b st ks) (for_keys srv b st' ks)"
  using assms(1,2)
proof (induction ks arbitrary: st st')
  case Nil
  then show ?case by simp
next
  case (Cons k ks)
  then have k: "k \<in> K" by simp
  with assms(3,5) have "read_geometry srv (url_of k) = rg" "url_of k \<notin> cslc_url ` set X"
    by simp_all
  from sim_loop_body [OF Cons.prems(1) k this(1) assms(4) this(2)]
  have step: "rel_outcome (related t0 X b K rg) (loop_body srv b st k) (loop_body srv b st' k)" .
  show ?case
  proof (cases "loop_body srv b st k")
    case (Completed s)
    with step obtain s' where s': "loop_body srv b st' k = Completed s'" "related t0 X b K rg s s'"
      by (cases "loop_body srv b st' k") auto
    from Cons.IH [OF s'(2)] Cons.prems(2) Completed s'(1) show ?thesis by simp
  next
    case (Raised e s)
    with step obtain e' s' where "loop_body srv b st' k = Raised e' s'"
      by (cases "loop_body srv b st' k") auto
    with Raised show ?thesis by simp
  qed
qed

lemma sim_block:
  assumes ks: "listed srv e = Some ks"
    and geo: "same_geometry srv ks"
    and st: "df st = t0 @ X"
    and c1: "\<forall>x\<in>set X. burst_id x \<noteq> fst e"
    and c2: "\<forall>k\<in>set ks. url_of k \<notin> cslc_url ` set X"
  shows "(case for_keys srv (fst e) st ks of
            Completed st2 \<Rightarrow>
              (\<exists>N. block srv t0 e = Some N \<and> df st2 = t0 @ X @ N
                 \<and> (\<forall>x\<in>set N. burst_id x = fst e)
                 \<and> cslc_url ` set N \<subseteq> url_of ` set ks)
          | Raised err st2 \<Rightarrow> block srv t0 e = None)"
proof -
  define rg where "rg = (case ks of [] \<Rightarrow> Inl IndexError | k # _ \<Rightarrow> read_geometry srv (url_of k))"
  have "read_geometry srv (url_of k) = rg" if "k \<in> set ks" for k
  proof (cases ks)
    case Nil
    with that show ?thesis by simp
  next
    case (Cons k0 ks')
    then have "k0 \<in> set ks" by simp
    from same_geometryD [OF geo that this] show ?thesis
      by (simp only: rg_def Cons list.case)
  qed
  then have rg: "\<forall>k\<in>set ks. read_geometry srv (url_of k) = rg" ..
  let ?st0 = "\<lparr>df = t0, calls = []\<rparr> :: 'a state"
  have "related t0 X (fst e) (set ks) rg st ?st0"
    unfolding related_def using st by (intro exI [of _ "[]"]) simp
  from sim_for_keys [OF this _ rg c1 c2, of ks]
  have sim: "rel_outcome (related t0 X (fst e) (set ks) rg)
               (for_keys srv (fst e) st ks) (for_keys srv (fst e) ?st0 ks)" by simp
  show ?thesis
  proof (cases "for_keys srv (fst e) st ks")
    case (Completed s)
    with sim obtain s' where s': "for_keys srv (fst e) ?st0 ks = Completed s'"
      "related t0 X (fst e) (set ks) rg s s'"
      by (cases "for_keys srv (fst e) ?st0 ks") auto
    from s'(2) obtain N where N: "df s = t0 @ X @ N" "df s' = t0 @ N"
      "\<forall>x\<in>set N. burst_id x = fst e" "cslc_url ` set N \<subseteq> url_of ` set ks"
      unfolding related_def by (elim exE conjE)
    from s'(1) N(2) ks have "block srv t0 e = Some N" by (simp add: block_def)
    with N Completed show ?thesis by simp
  next
    case (Raised err s)
    with sim obtain e' s' where "for_keys srv (fst e) ?st0 ks = Raised e' s'"
      by (cases "for_keys srv (fst e) ?st0 ks") auto
    with ks Raised show ?thesis by (simp add: block_def)
  qed
qed

lemma disjoint_listingsD:
  "disjoint_listings srv df_val \<Longrightarrow> e \<in> set df_val \<Longrightarrow> e' \<in> set df_val \<Longrightarrow>
   listed srv e = Some ks \<Longrightarrow> listed srv e' = Some ks' \<Longrightarrow> e \<noteq> e' \<Longrightarrow>
   set ks \<inter> set ks' = {}"
  unfolding disjoint_listings_def by blast

lemma main_loop_blocks:
  assumes "distinct (map fst df_val)"
    and "disjoint_listings srv df_val"
    and "constant_geometry srv df_val"
    and "df st = t0 @ X"
    and "\<forall>x\<in>set X. burst_id x \<notin> fst ` set df_val"
    and "\<forall>e\<in>set df_val. \<forall>ks. listed srv e = Some ks \<longrightarrow>
           (\<forall>k\<in>set ks. url_of k \<notin> cslc_url ` set X)"
  shows "((\<forall>e\<in>set df_val. block srv t0 e \<noteq> None) \<longrightarrow>
           (\<exists>st'. main_loop srv st df_val = Some (Completed st')
              \<and> df st' = t0 @ X @ concat (map (\<lambda>e. the (block srv t0 e)) df_val)))
       \<and> ((\<exists>st'. main_loop srv st df_val = Some (Completed st')) \<longrightarrow>
           (\<forall>e\<in>set df_val. block srv t0 e \<noteq> None))"
  using assms
proof (induction df_val arbitrary: st X)
  case Nil
  then show ?case by simp
next
  case (Cons e rest)
  let ?st1 = "st\<lparr>calls := calls st @ [List_keys (prefix @ ''/'' @ snd e) (fst e)]\<rparr>"
  have st1: "df ?st1 = t0 @ X" using Cons.prems(4) by simp
  from Cons.prems(1) have dist: "fst e \<notin> fst ` set rest" "distinct (map fst rest)" by simp_all
  from Cons.prems(2) have disj: "disjoint_listings srv rest"
    by (simp add: disjoint_listings_def)
  from Cons.prems(3) have geo: "constant_geometry srv rest"
    by (simp add: constant_geometry_def)
  show ?case
  proof (cases "listed srv e")
    case None
    then show ?thesis by (simp add: main_loop_Cons block_def)
  next
    case (Some ks)
    from Cons.prems(3) Some have g: "same_geometry srv ks"
      by (simp add: constant_geometry_def)
    from Cons.prems(5) have c1: "\<forall>x\<in>set X. burst_id x \<noteq> fst e" by auto
    from Cons.prems(6) Some have c2: "\<forall>k\<in>set ks. url_of k \<notin> cslc_url ` set X" by simp
    note sim = sim_block [OF Some g st1 c1 c2]
    show ?thesis
    proof (cases "for_keys srv (fst e) ?st1 ks")
      case (Raised err st2)
      with sim Some show ?thesis by (simp add: main_loop_Cons)
    next
      case (Completed st2)
      with sim obtain N where N: "block srv t0 e = Some N" "df st2 = t0 @ (X @ N)"
        "\<forall>x\<in>set N. burst_id x = fst e" "cslc_url ` set N \<subseteq> url_of ` set ks"
        by auto
      have b: "\<forall>x\<in>set (X @ N). burst_id x \<notin> fst ` set rest"
        using Cons.prems(5) N(3) dist(1) by (force simp: image_iff)
      have u: "\<forall>e'\<in>set rest. \<forall>ks'. listed srv e' = Some ks' \<longrightarrow>
                 (\<forall>k\<in>set ks'. url_of k \<notin> cslc_url ` set (X @ N))"
      proof (intro ballI allI impI)
        fix e' ks' k
        assume e': "e' \<in> set rest" and ks': "listed srv e' = Some ks'" and k: "k \<in> set ks'"
        from e' dist(1) have "e \<noteq> e'" by auto
        with disjoint_listingsD [OF Cons.prems(2) _ _ Some ks'] e'
        have "set ks \<inter> set ks' = {}" by simp
        with k have "url_of k \<notin> url_of ` set ks" by auto
        with N(4) have "url_of k \<notin> cslc_url ` set N" by blast
        moreover from Cons.prems(6) e' ks' k have "url_of k \<notin> cslc_url ` set X" by simp
        ultimately show "url_of k \<notin> cslc_url ` set (X @ N)" by auto
      qed
      note IH = Cons.IH [OF dist(2) disj geo N(2) b u]
      have run: "main_loop srv st (e # rest) = main_loop srv st2 rest"
        using Some Completed by (simp add: main_loop_Cons)
      from IH N(1) show ?thesis unfolding run by simp
    qed
  qed
qed

subsection \<open>The saved table and the order of the bursts\<close>

lemma find_append_case:
  "List.find P (xs @ ys) = (case List.find P xs of None \<Rightarrow> List.find P ys | Some x \<Rightarrow> Some x)"
  by (induction xs) simp_all

lemma find_blocks:
  assumes "distinct (map fst seed)"
    and "\<forall>e\<in>set seed. \<forall>x\<in>set (B e). burst_id x = fst e"
  shows "List.find (\<lambda>y. burst_date y = (b, d)) (concat (map B seed)) =
           (case map_of seed b of
              None \<Rightarrow> None
            | Some n \<Rightarrow> List.find (\<lambda>y. burst_date y = (b, d)) (B (b, n)))"
  using assms
proof (induction seed)
  case Nil
  then show ?case by simp
next
  case (Cons e seed)
  obtain b' n' where e: "e = (b', n')" by (cases e)
  show ?case
  proof (cases "b' = b")
    case True
    with Cons.prems(1) e have "b \<notin> fst ` set seed" by simp
    then have "map_of seed b = None" by (simp add: map_of_eq_None_iff)
    with Cons.IH Cons.prems
    have "List.find (\<lambda>y. burst_date y = (b, d)) (concat (map B seed)) = None" by simp
    with True e show ?thesis by (simp add: find_append_case split: option.splits)
  next
    case False
    with Cons.prems(2) e have "\<forall>x\<in>set (B e). burst_date x \<noteq> (b, d)"
      by (auto simp: burst_date_def)
    then have "List.find (\<lambda>y. burst_date y = (b, d)) (B e) = None"
      by (simp add: find_None_iff)
    with Cons.IH Cons.prems False e show ?thesis by (simp add: find_append_case)
  qed
qed

lemma sorted_distinct_key_unique:
  assumes "sorted (map k xs)" "distinct (map k xs)"
    and "sorted (map k ys)" "distinct (map k ys)"
    and "set xs = set ys"
  shows "xs = ys"
proof -
  from assms(5) have "set (map k xs) = set (map k ys)" by simp
  with assms(1-4) have "map k xs = map k ys" by (intro sorted_distinct_set_unique)
  moreover from assms(2,5) have "inj_on k (set xs \<union> set ys)" by (simp add: distinct_map)
  ultimately show ?thesis by (rule map_inj_on)
qed

lemma save_table_cong:
  assumes "\<And>p. List.find (\<lambda>y. burst_date y = p) L = List.find (\<lambda>y. burst_date y = p) L'"
  shows "save_table L = save_table L'"
proof (rule sorted_distinct_key_unique [where k = burst_date])
  have "x \<in> set (save_table L) \<longleftrightarrow> x \<in> set (save_table L')" for x
    using assms [of "burst_date x"] by (simp add: set_save_table drop_duplicates_find)
  then show "set (save_table L) = set (save_table L')" by (rule set_eqI)
qed (simp_all add: sorted_save_table distinct_save_table)

lemma save_table_blocks:
  assumes "distinct (map fst seed)" "distinct (map fst seed')" "set seed = set seed'"
    and "\<forall>e\<in>set seed. \<forall>x\<in>set (B e). burst_id x = fst e"
  shows "save_table (t0 @ concat (map B seed)) = save_table (t0 @ concat (map B seed'))"
proof (rule save_table_cong)
  fix p :: "string \<times> pyval"
  obtain b d where p: "p = (b, d)" by (cases p)
  from assms(1-3) have m: "map_of seed = map_of seed'" by (simp add: map_of_inject_set)
  from assms(3,4) have B': "\<forall>e\<in>set seed'. \<forall>x\<in>set (B e). burst_id x = fst e" by simp
  show "List.find (\<lambda>y. burst_date y = p) (t0 @ concat (map B seed)) =
        List.find (\<lambda>y. burst_date y = p) (t0 @ concat (map B seed'))"
    unfolding p find_append_case find_blocks [OF assms(1,4)] find_blocks [OF assms(2) B'] m ..
qed

lemma block_burst:
  assumes "block srv t0 e = Some N" and "constant_geometry srv df_val" and "e \<in> set df_val"
  shows "\<forall>x\<in>set N. burst_id x = fst e"
proof -
  from assms(1) obtain ks where ks: "listed srv e = Some ks"
    by (auto simp: block_def split: option.splits)
  with assms(2,3) have g: "same_geometry srv ks" by (simp add: constant_geometry_def)
  have "df \<lparr>df = t0, calls = []\<rparr> = t0 @ []" by simp
  from sim_block [OF ks g this] assms(1) show ?thesis
    by (cases "for_keys srv (fst e) \<lparr>df = t0, calls = []\<rparr> ks") auto
qed

lemma disjoint_listings_set:
  "set df_val' = set df_val \<Longrightarrow> disjoint_listings srv df_val' = disjoint_listings srv df_val"
  by (simp add: disjoint_listings_def)

lemma constant_geometry_set:
  "set df_val' = set df_val \<Longrightarrow> constant_geometry srv df_val' = constant_geometry srv df_val"
  by (simp add: constant_geometry_def)

text \<open>
  C5, as stated, fails: a burst of two networks with an object of the same date in
  each. The two rows agree on (burst id, date), the duplicate removal keeps the one
  appended first, and the two orders of the burst file keep different objects.
\<close>

theorem order_of_networks_counterexample:
  "map_option (map cslc_url) (final_table (notebook services_E
      \<lparr>validation_csv = None,
       validation_bursts =
         Some [(''t142_303931_iw3'', ''Ecuador''), (''t142_303931_iw3'', ''Oklahoma'')]\<rparr>))
     = Some [s3_path @ ''/'' @ key_A1]
   \<and> map_option (map cslc_url) (final_table (notebook services_E
      \<lparr>validation_csv = None,
       validation_bursts =
         Some [(''t142_303931_iw3'', ''Oklahoma''), (''t142_303931_iw3'', ''Ecuador'')]\<rparr>))
     = Some [s3_path @ ''/'' @ key_E2]
   \<and> s3_path @ ''/'' @ key_A1 \<noteq> s3_path @ ''/'' @ key_E2"
  by code_simp

text \<open>
  C5, amended. For a burst file in which every burst id occurs once, when no key is
  listed for two of its rows and the read geometry is the same for all the keys of a
  row, the order of the rows is irrelevant: if the run completes for one order it
  completes for any other, with the same table returned and saved.
\<close>

theorem order_of_bursts_irrelevant:
  assumes "distinct (map fst df_val)" and "distinct (map fst df_val')"
    and "set df_val' = set df_val"
    and "disjoint_listings srv df_val"
    and "constant_geometry srv df_val"
    and "notebook srv \<lparr>validation_csv = csv, validation_bursts = Some df_val\<rparr>
           = Some (fs1, Completed st1)"
  shows "\<exists>fs2 st2.
           notebook srv \<lparr>validation_csv = csv, validation_bursts = Some df_val'\<rparr>
             = Some (fs2, Completed st2)
         \<and> df st2 = df st1 \<and> validation_csv fs2 = validation_csv fs1"
proof -
  from assms(6) obtain t0 s1 where
    load: "load_table \<lparr>validation_csv = csv, validation_bursts = Some df_val\<rparr> = Inr t0"
    and run1: "main_loop srv \<lparr>df = t0, calls = []\<rparr> df_val = Some (Completed s1)"
    and st1: "df st1 = save_table (df s1)"
    and fs1: "validation_csv fs1 = Some (to_csv (csv \<noteq> None) (save_table (df s1)))"
    by (auto elim!: notebook_Completed)
  from load have load':
    "load_table \<lparr>validation_csv = csv, validation_bursts = Some df_val'\<rparr> = Inr t0"
    by (simp add: load_table_def)
  let ?st0 = "\<lparr>df = t0, calls = []\<rparr>"
  let ?B = "\<lambda>e. the (block srv t0 e)"
  have st0: "df ?st0 = t0 @ []" by simp
  note b1 = main_loop_blocks [OF assms(1,4,5) st0, simplified]
  from b1 run1 have all: "\<forall>e\<in>set df_val. block srv t0 e \<noteq> None" by blast
  with b1 run1 have df1: "df s1 = t0 @ concat (map ?B df_val)" by auto
  from assms(4) have d': "disjoint_listings srv df_val'"
    by (simp only: disjoint_listings_set [OF assms(3)])
  from assms(5) have g': "constant_geometry srv df_val'"
    by (simp only: constant_geometry_set [OF assms(3)])
  note b2 = main_loop_blocks [OF assms(2) d' g' st0, simplified]
  from all assms(3) have "\<forall>e\<in>set df_val'. block srv t0 e \<noteq> None" by simp
  with b2 obtain s2 where
    run2: "main_loop srv ?st0 df_val' = Some (Completed s2)"
    and df2: "df s2 = t0 @ concat (map ?B df_val')"
    by blast
  have bursts: "\<forall>e\<in>set df_val. \<forall>x\<in>set (?B e). burst_id x = fst e"
  proof
    fix e assume e: "e \<in> set df_val"
    with all obtain N where "block srv t0 e = Some N" by auto
    with block_burst [OF this assms(5) e] show "\<forall>x\<in>set (?B e). burst_id x = fst e" by simp
  qed
  from save_table_blocks [OF assms(1,2) assms(3) [symmetric] bursts, of t0]
  have same: "save_table (df s2) = save_table (df s1)" by (simp add: df1 df2)
  from run2 load' have "notebook srv \<lparr>validation_csv = csv, validation_bursts = Some df_val'\<rparr>
            = Some (\<lparr>validation_csv = csv, validation_bursts = Some df_val'\<rparr>
                       \<lparr>validation_csv := Some (to_csv (csv \<noteq> None) (save_table (df s2)))\<rparr>,
                    Completed (s2\<lparr>df := save_table (df s2)\<rparr>))"
    by (simp add: notebook_def Let_def)
  with same st1 fs1 show ?thesis by simp
qed

lemma listed_D:
  "listed services_D (''t142_303931_iw3'', ''Ecuador'') = Some [key_D1]"
  "listed services_D (''t142_303932_iw1'', ''Ecuador'') = Some [key_D2]"
  by code_simp+

lemma read_geometry_D: "read_geometry services_D url = Inr ''POINT (0 0)''"
  by (simp add: read_geometry_def services_D_def)

theorem order_of_bursts_irrelevant_witness:
  "distinct (map fst [(''t142_303932_iw1'', ''Ecuador''), (''t142_303931_iw3'', ''Ecuador'')])
   \<and> disjoint_listings services_D
        [(''t142_303932_iw1'', ''Ecuador''), (''t142_303931_iw3'', ''Ecuador'')]
   \<and> constant_geometry services_D
        [(''t142_303932_iw1'', ''Ecuador''), (''t142_303931_iw3'', ''Ecuador'')]
   \<and> (\<exists>fs1 st1 fs2 st2.
         notebook services_D files_D = Some (fs1, Completed st1)
       \<and> notebook services_D
           \<lparr>validation_csv = None,
            validation_bursts =
              Some [(''t142_303931_iw3'', ''Ecuador''), (''t142_303932_iw1'', ''Ecuador'')]\<rparr>
           = Some (fs2, Completed st2)
       \<and> df st2 = df st1 \<and> map cslc_url (df st1) = [s3_path @ ''/'' @ key_D1, s3_path @ ''/'' @ key_D2])"
proof -
  let ?seed = "[(''t142_303932_iw1'', ''Ecuador''), (''t142_303931_iw3'', ''Ecuador'')]"
  let ?seed' = "[(''t142_303931_iw3'', ''Ecuador''), (''t142_303932_iw1'', ''Ecuador'')]"
  have d: "distinct (map fst ?seed)" "distinct (map fst ?seed')" "set ?seed' = set ?seed"
    by auto
  have dl: "disjoint_listings services_D ?seed"
    by (simp add: disjoint_listings_def listed_D key_D1_def key_D2_def)
  have cg: "constant_geometry services_D ?seed"
    by (simp add: constant_geometry_def same_geometry_def read_geometry_D)
  have "map_option (map cslc_url) (final_table (notebook services_D files_D)) =
          Some [s3_path @ ''/'' @ key_D1, s3_path @ ''/'' @ key_D2]"
    by code_simp
  then obtain fs1 st1 where run: "notebook services_D files_D = Some (fs1, Completed st1)"
    and rows: "map cslc_url (df st1) = [s3_path @ ''/'' @ key_D1, s3_path @ ''/'' @ key_D2]"
    by (auto elim: final_tableE)
  from order_of_bursts_irrelevant [OF d dl cg run [unfolded files_D_def]]
  obtain fs2 st2 where run2: "notebook services_D
           \<lparr>validation_csv = None, validation_bursts = Some ?seed'\<rparr>
           = Some (fs2, Completed st2)" and same: "df st2 = df st1"
    by blast
  show ?thesis by (intro conjI exI) (rule d dl cg run run2 same rows)+
qed

subsection \<open>Runs on a saved table\<close>

text \<open>
  C10, at a saved table with one row of the burst, of the date 20141015 and of an
  object that is not listed, and a listing with another object of that burst and
  date. The row of the listed object is appended, with the date as a string; the
  loaded date is an integer, so the duplicate removal drops neither, and the table
  written has the loaded row and the new row of the one burst id and date.
\<close>

theorem reloaded_row_and_new_row_kept:
  "map_option (map cslc_url) (saved_rows (notebook services_A files_old)) =
     Some [cslc_url old_row, s3_path @ ''/'' @ key_A1, s3_path @ ''/'' @ key_A2]
   \<and> map_option (map burst_date) (saved_rows (notebook services_A files_old)) =
     Some [(''t142_303931_iw3'', ''20141015''), (''t142_303931_iw3'', ''20141015''),
           (''t142_303931_iw3'', ''20141108'')]"
  by code_simp

text \<open>
  C2, at two bursts. The first run completes: the second object of the date 20141015
  reuses the geometry of the row at index 1 and is dropped as a duplicate. The second
  run finds the row of that burst at index 0 after the sort, reads the geometry of the
  dropped object, and raises.
\<close>

theorem second_run_raises:
  "final_table (notebook services_F files_D) = Some table_F
   \<and> second_run services_F files_D =
       Some (files_D\<lparr>validation_csv := Some saved_F\<rparr>,
             Raised ReadError
               \<lparr>df = loaded_F,
                calls = [List_keys (prefix @ ''/Ecuador'') ''t142_303932_iw1'',
                         List_keys (prefix @ ''/Ecuador'') ''t142_303931_iw3'',
                         Read_geometry (s3_path @ ''/'' @ key_F2)]\<rparr>)"
  by code_simp

end
